theory Spec2Isabelle
  imports Main
begin

section \<open>JavaScript values and \<open>JSON.stringify\<close>\<close>

text \<open>
  The payload of a block is any JavaScript value; only \<^verbatim>\<open>JSON.stringify\<close> of it enters the
  hash. The values modelled are \<^verbatim>\<open>undefined\<close>, \<^verbatim>\<open>null\<close>, booleans, integers (of magnitude
  below \<open>2\<^sup>5\<^sup>3\<close>, which JavaScript prints in plain decimal), strings, arrays and plain
  objects, an object being the list of its properties in enumeration order.
\<close>

datatype jsval =
    JUndefined
  | JNull
  | JBool bool
  | JNum int
  | JStr string
  | JArr "jsval list"
  | JObj "(string \<times> jsval) list"

text \<open>Number to string, for non-negative integers: the decimal digits.\<close>

function dec :: "nat \<Rightarrow> string" where
  "dec n = (if n < 10 then [''0123456789'' ! n] else dec (n div 10) @ [''0123456789'' ! (n mod 10)])"
  by pat_completeness auto
termination
  by (relation "measure id") auto

definition dec_int :: "int \<Rightarrow> string" where
  "dec_int n = (if n < 0 then ''-'' @ dec (nat (- n)) else dec (nat n))"

text \<open>
  \<^verbatim>\<open>QuoteJSONString\<close>: the double quote and the backslash are escaped, the control characters
  are written as \<^verbatim>\<open>\b \t \n \f \r\<close> or as \<^verbatim>\<open>\u00XX\<close>.
\<close>

definition json_escape :: "char \<Rightarrow> string" where
  "json_escape c =
     (if c = CHR 0x08 then [CHR 0x5C, CHR ''b'']
      else if c = CHR 0x09 then [CHR 0x5C, CHR ''t'']
      else if c = CHR 0x0A then [CHR 0x5C, CHR ''n'']
      else if c = CHR 0x0C then [CHR 0x5C, CHR ''f'']
      else if c = CHR 0x0D then [CHR 0x5C, CHR ''r'']
      else if c = CHR 0x22 then [CHR 0x5C, CHR 0x22]
      else if c = CHR 0x5C then [CHR 0x5C, CHR 0x5C]
      else if (of_char c :: nat) < 32 then
        [CHR 0x5C, CHR ''u'', CHR ''0'', CHR ''0'',
         ''0123456789abcdef'' ! (of_char c div 16), ''0123456789abcdef'' ! (of_char c mod 16)]
      else [c])"

definition json_quote :: "string \<Rightarrow> string" where
  "json_quote s = [CHR 0x22] @ concat (map json_escape s) @ [CHR 0x22]"

fun join :: "string \<Rightarrow> string list \<Rightarrow> string" where
  "join sep [] = []"
| "join sep [x] = x"
| "join sep (x # y # ys) = x @ sep @ join sep (y # ys)"

text \<open>
  \<^verbatim>\<open>JSON.stringify(v)\<close>: a string, or \<^verbatim>\<open>undefined\<close> (\<open>None\<close>) for \<^verbatim>\<open>undefined\<close> itself. An
  \<^verbatim>\<open>undefined\<close> array element is written \<^verbatim>\<open>null\<close>; a property whose value is \<^verbatim>\<open>undefined\<close> is
  left out.
\<close>

fun JSON_stringify :: "jsval \<Rightarrow> string option"
  and stringify_elements :: "jsval list \<Rightarrow> string list"
  and stringify_properties :: "(string \<times> jsval) list \<Rightarrow> string list" where
  "JSON_stringify JUndefined = None"
| "JSON_stringify JNull = Some ''null''"
| "JSON_stringify (JBool b) = Some (if b then ''true'' else ''false'')"
| "JSON_stringify (JNum n) = Some (dec_int n)"
| "JSON_stringify (JStr s) = Some (json_quote s)"
| "JSON_stringify (JArr vs) = Some (''['' @ join '','' (stringify_elements vs) @ '']'')"
| "JSON_stringify (JObj ps) = Some (''{'' @ join '','' (stringify_properties ps) @ ''}'')"
| "stringify_elements [] = []"
| "stringify_elements (v # vs) =
     (case JSON_stringify v of None \<Rightarrow> ''null'' | Some s \<Rightarrow> s) # stringify_elements vs"
| "stringify_properties [] = []"
| "stringify_properties (p # ps) =
     (case JSON_stringify (snd p) of
        None \<Rightarrow> stringify_properties ps
      | Some s \<Rightarrow> (json_quote (fst p) @ '':'' @ s) # stringify_properties ps)"

text \<open>
  A number-valued field that may still be unassigned: \<^verbatim>\<open>undefined\<close>, \<^verbatim>\<open>NaN\<close> or a
  non-negative integer. \<^verbatim>\<open>x++\<close> on \<^verbatim>\<open>undefined\<close> or \<^verbatim>\<open>NaN\<close> gives \<^verbatim>\<open>NaN\<close>.
\<close>

datatype jsnum = Undefined | NaN | Num nat

fun ToString :: "jsnum \<Rightarrow> string" where
  "ToString Undefined = ''undefined''"
| "ToString NaN = ''NaN''"
| "ToString (Num n) = dec n"

fun increment :: "jsnum \<Rightarrow> jsnum" where
  "increment Undefined = NaN"
| "increment NaN = NaN"
| "increment (Num n) = Num (n + 1)"

section \<open>The class \<open>Block\<close>\<close>

text \<open>
  A block as the constructor leaves it. \<open>index\<close> is a non-negative integer, \<open>timestamp\<close> a
  string, \<open>data\<close> any value; \<open>previousHash\<close> is a string, or \<^verbatim>\<open>undefined\<close> (\<open>None\<close>) when
  the constructor is called with three arguments, as the script at the end of \<^verbatim>\<open>main.js\<close>
  does. Numbers are non-negative integers below \<open>2\<^sup>5\<^sup>3\<close>, which JavaScript adds exactly and
  prints in plain decimal. A \<open>block\<close> is the state of one \<^verbatim>\<open>Block\<close> object; where the source
  passes an object on and assigns to it, the objects live in a heap (see \<open>objects\<close> below).
\<close>

record block =
  index :: nat
  timestamp :: string
  data :: jsval
  previousHash :: "string option"
  hash :: string
  nonce :: jsnum

datatype error = RangeError | TypeError

text \<open>
  \<^verbatim>\<open>this.index + this.previousHash + this.timestamp + JSON.stringify(this.data) + this.nonce\<close>,
  from left to right: a number plus \<^verbatim>\<open>undefined\<close> is \<^verbatim>\<open>NaN\<close>, a number plus a string is the
  concatenation, and from there on every \<^verbatim>\<open>+\<close> concatenates the string forms.
\<close>

definition hash_input :: "block \<Rightarrow> string" where
  "hash_input this =
     (case previousHash this of None \<Rightarrow> ''NaN'' | Some p \<Rightarrow> dec (index this) @ p)
     @ timestamp this
     @ (case JSON_stringify (data this) of None \<Rightarrow> ''undefined'' | Some s \<Rightarrow> s)
     @ ToString (nonce this)"

text \<open>
  \<^verbatim>\<open>SHA256\<close> is imported from the crypto-js library, which is not part of the repository:
  every function that hashes takes it as its first argument, a function from the string
  hashed to the digest in hexadecimal, and the theorems hold for every such function.

  A method call returns its result and the receiver as the call leaves it.
  \<^verbatim>\<open>calculateHash\<close> assigns nothing.
\<close>

definition calculateHash_run :: "(string \<Rightarrow> string) \<Rightarrow> block \<Rightarrow> string \<times> block" where
  "calculateHash_run SHA256 this = (SHA256 (hash_input this), this)"

definition calculateHash :: "(string \<Rightarrow> string) \<Rightarrow> block \<Rightarrow> string" where
  "calculateHash SHA256 this = fst (calculateHash_run SHA256 this)"

text \<open>
  The constructor assigns the fields in the order of the source: \<open>hash\<close> is computed while
  \<open>nonce\<close> is still \<^verbatim>\<open>undefined\<close>, and \<open>nonce\<close> becomes 0 afterwards. The \<open>hash\<close> of the
  first record stands for the field not assigned yet; \<open>calculateHash\<close> does not read it.
\<close>

definition Block ::
  "(string \<Rightarrow> string) \<Rightarrow> nat \<Rightarrow> string \<Rightarrow> jsval \<Rightarrow> string option \<Rightarrow> block" where
  "Block SHA256 index' timestamp' data' previousHash' =
     (let this = \<lparr>index = index', timestamp = timestamp', data = data',
                  previousHash = previousHash', hash = [], nonce = Undefined\<rparr>;
          this = this\<lparr>hash := calculateHash SHA256 this\<rparr>;
          this = this\<lparr>nonce := Num 0\<rparr>
      in this)"

text \<open>
  \<^verbatim>\<open>mineBlock\<close>: the loop test compares \<^verbatim>\<open>this.hash.substring(0, difficulty)\<close> with
  \<^verbatim>\<open>Array(difficulty + 1).join("0")\<close>. \<^verbatim>\<open>Array(n)\<close> throws a \<^verbatim>\<open>RangeError\<close> for \<open>n\<close> above
  \<open>2\<^sup>3\<^sup>2 - 1\<close>. The loop has no bound: not returning is \<open>None\<close>. The line printed at the
  end is left out.
\<close>

partial_function (option) mineBlock ::
  "(string \<Rightarrow> string) \<Rightarrow> nat \<Rightarrow> block \<Rightarrow> (error + block) option" where
  "mineBlock SHA256 difficulty this =
     (if 4294967295 < difficulty + 1 then Some (Inl RangeError)
      else if take difficulty (hash this) \<noteq> replicate difficulty CHR ''0'' then
        (let this = this\<lparr>nonce := increment (nonce this)\<rparr>;
             this = this\<lparr>hash := calculateHash SHA256 this\<rparr>
         in mineBlock SHA256 difficulty this)
      else Some (Inr this))"

section \<open>The class \<open>Blockchain\<close>\<close>

record blockchain =
  chain_arr :: "block list"
  difficulty :: nat

definition createGenesisBlock :: "(string \<Rightarrow> string) \<Rightarrow> block" where
  "createGenesisBlock SHA256 =
     Block SHA256 0 ''01/01/2018'' (JStr ''Genesis Block'') (Some ''0'')"

definition Blockchain :: "(string \<Rightarrow> string) \<Rightarrow> blockchain" where
  "Blockchain SHA256 = \<lparr>chain_arr = [createGenesisBlock SHA256], difficulty = 2\<rparr>"

text \<open>
  \<^verbatim>\<open>this.chain[this.chain.length - 1]\<close> is \<^verbatim>\<open>undefined\<close> on an empty array, and reading
  \<^verbatim>\<open>.hash\<close> of it throws a \<^verbatim>\<open>TypeError\<close>.
\<close>

definition getLatestBlock :: "blockchain \<Rightarrow> block option" where
  "getLatestBlock this = (if chain_arr this = [] then None else Some (last (chain_arr this)))"

text \<open>
  \<^verbatim>\<open>addBlock\<close> is handed a \<^verbatim>\<open>Block\<close> object, assigns to it, mines it in place and pushes
  the reference. So the \<^verbatim>\<open>Block\<close> objects live in a heap, at addresses, and the array
  \<^verbatim>\<open>this.chain\<close> holds addresses: one object may stand at several positions. \<open>deref\<close>
  reads the chain through its references.
\<close>

type_synonym ref = nat

record objects =
  heap :: "ref \<Rightarrow> block"
  chain_refs :: "ref list"
  chain_difficulty :: nat

definition deref :: "objects \<Rightarrow> blockchain" where
  "deref this = \<lparr>chain_arr = map (heap this) (chain_refs this),
                  difficulty = chain_difficulty this\<rparr>"

text \<open>\<^verbatim>\<open>new Blockchain()\<close>, with the genesis block allocated at the address \<open>g\<close>.\<close>

definition new_Blockchain :: "(string \<Rightarrow> string) \<Rightarrow> (ref \<Rightarrow> block) \<Rightarrow> ref \<Rightarrow> objects" where
  "new_Blockchain SHA256 h g =
     \<lparr>heap = h(g := createGenesisBlock SHA256), chain_refs = [g], chain_difficulty = 2\<rparr>"

text \<open>
  \<^verbatim>\<open>addBlock(newBlock)\<close>: the hash of the latest block is read first, then assigned to
  \<^verbatim>\<open>newBlock.previousHash\<close>; the object is mined where it is, and its address is pushed.
  When \<^verbatim>\<open>mineBlock\<close> throws, the result is the error alone: the heap after a throw, in
  which the object has its new \<open>previousHash\<close> already, is not kept.
\<close>

definition addBlock ::
  "(string \<Rightarrow> string) \<Rightarrow> objects \<Rightarrow> ref \<Rightarrow> (error + objects) option" where
  "addBlock SHA256 this newBlock =
     (case getLatestBlock (deref this) of
        None \<Rightarrow> Some (Inl TypeError)
      | Some latest \<Rightarrow>
          (let h = (heap this)(newBlock := (heap this newBlock)\<lparr>previousHash := Some (hash latest)\<rparr>)
           in case mineBlock SHA256 (chain_difficulty this) (h newBlock) of
                None \<Rightarrow> None
              | Some (Inl e) \<Rightarrow> Some (Inl e)
              | Some (Inr b) \<Rightarrow>
                  Some (Inr (this\<lparr>heap := h(newBlock := b),
                                  chain_refs := chain_refs this @ [newBlock]\<rparr>))))"

text \<open>A caller appending one object after the other; the first failure ends the run.\<close>

fun addBlocks ::
  "(string \<Rightarrow> string) \<Rightarrow> objects \<Rightarrow> ref list \<Rightarrow> (error + objects) option" where
  "addBlocks SHA256 this [] = Some (Inr this)"
| "addBlocks SHA256 this (r # rs) =
     (case addBlock SHA256 this r of
        None \<Rightarrow> None
      | Some (Inl e) \<Rightarrow> Some (Inl e)
      | Some (Inr this') \<Rightarrow> addBlocks SHA256 this' rs)"

text \<open>
  \<^verbatim>\<open>isChainValid\<close>: the \<^verbatim>\<open>for\<close> loop from \<open>i = 1\<close>, with the receiver passed through every
  iteration and returned with the verdict.
\<close>

function isChainValid_loop ::
  "(string \<Rightarrow> string) \<Rightarrow> nat \<Rightarrow> blockchain \<Rightarrow> bool \<times> blockchain" where
  "isChainValid_loop SHA256 i this =
     (if i < length (chain_arr this) then
        (let currentBlock = chain_arr this ! i;
             previousBlock = chain_arr this ! (i - 1)
         in if hash currentBlock \<noteq> calculateHash SHA256 currentBlock then (False, this)
            else if previousHash currentBlock \<noteq> Some (hash previousBlock) then (False, this)
            else isChainValid_loop SHA256 (i + 1) this)
      else (True, this))"
  by pat_completeness auto
termination
  by (relation "measure (\<lambda>(SHA256, i, this). length (chain_arr this) - i)") auto

definition isChainValid_run :: "(string \<Rightarrow> string) \<Rightarrow> blockchain \<Rightarrow> bool \<times> blockchain" where
  "isChainValid_run SHA256 this = isChainValid_loop SHA256 1 this"

definition isChainValid :: "(string \<Rightarrow> string) \<Rightarrow> blockchain \<Rightarrow> bool" where
  "isChainValid SHA256 this = fst (isChainValid_run SHA256 this)"

text \<open>
  Tampering from outside, as \<^verbatim>\<open>petroCoin.chain[1].data = { amount: 400 }\<close> in the script: an
  assignment to one field of the block at position \<open>i\<close>. Beyond the end of the array the
  element is \<^verbatim>\<open>undefined\<close> and the assignment throws.
\<close>

definition set_data :: "blockchain \<Rightarrow> nat \<Rightarrow> jsval \<Rightarrow> error + blockchain" where
  "set_data this i v =
     (if i < length (chain_arr this)
      then Inr (this\<lparr>chain_arr := (chain_arr this)[i := (chain_arr this ! i)\<lparr>data := v\<rparr>]\<rparr>)
      else Inl TypeError)"

definition set_hash :: "blockchain \<Rightarrow> nat \<Rightarrow> string \<Rightarrow> error + blockchain" where
  "set_hash this i v =
     (if i < length (chain_arr this)
      then Inr (this\<lparr>chain_arr := (chain_arr this)[i := (chain_arr this ! i)\<lparr>hash := v\<rparr>]\<rparr>)
      else Inl TypeError)"

definition set_previousHash :: "blockchain \<Rightarrow> nat \<Rightarrow> string option \<Rightarrow> error + blockchain" where
  "set_previousHash this i v =
     (if i < length (chain_arr this)
      then Inr (this\<lparr>chain_arr :=
                  (chain_arr this)[i := (chain_arr this ! i)\<lparr>previousHash := v\<rparr>]\<rparr>)
      else Inl TypeError)"

section \<open>Auxiliary definitions\<close>

text \<open>What \<^verbatim>\<open>isChainValid\<close> checks of the block at position \<open>j\<close>.\<close>

definition block_ok :: "(string \<Rightarrow> string) \<Rightarrow> block list \<Rightarrow> nat \<Rightarrow> bool" where
  "block_ok SHA256 bs j \<longleftrightarrow>
     hash (bs ! j) = calculateHash SHA256 (bs ! j) \<and>
     previousHash (bs ! j) = Some (hash (bs ! (j - 1)))"

text \<open>What a run of \<^verbatim>\<open>mineBlock\<close> that ends establishes of its result.\<close>

definition mined :: "(string \<Rightarrow> string) \<Rightarrow> nat \<Rightarrow> block \<Rightarrow> error + block \<Rightarrow> bool" where
  "mined SHA256 d b r =
     (case r of
        Inl e \<Rightarrow> e = RangeError \<and> 4294967295 < d + 1
      | Inr b' \<Rightarrow>
          index b' = index b \<and> timestamp b' = timestamp b \<and> data b' = data b \<and>
          previousHash b' = previousHash b \<and>
          take d (hash b') = replicate d CHR ''0'' \<and>
          (b' = b \<or> hash b' = calculateHash SHA256 b'))"

text \<open>The linkage of a sequence of blocks.\<close>

definition linked :: "block list \<Rightarrow> bool" where
  "linked bs \<longleftrightarrow>
     (\<forall>i. 1 \<le> i \<and> i < length bs \<longrightarrow> previousHash (bs ! i) = Some (hash (bs ! (i - 1))))"

text \<open>
  The instance at which the witnesses are stated. It is not SHA-256: it writes \<^verbatim>\<open>00\<close> in
  front of its argument, so it has no collisions and every digest meets difficulty 2.
  \<open>memo\<close> is \<^verbatim>\<open>new Block(1, "12/01/2018", { amount: 802, memo: undefined })\<close> under it,
  \<open>rehashed\<close> that block after \<^verbatim>\<open>addBlock\<close> has set \<open>previousHash\<close> and its hash has been
  recomputed, and \<open>chain_memo\<close> the fresh chain with \<open>rehashed\<close> pushed onto it.
\<close>

definition prefix00 :: "string \<Rightarrow> string" where
  "prefix00 s = ''00'' @ s"

definition memo :: block where
  "memo =
     Block prefix00 1 ''12/01/2018'' (JObj [(''amount'', JNum 802), (''memo'', JUndefined)]) None"

definition rehashed :: block where
  "rehashed =
     (let b = memo\<lparr>previousHash := Some (hash (createGenesisBlock prefix00))\<rparr>
      in b\<lparr>hash := calculateHash prefix00 b\<rparr>)"

definition chain_memo :: blockchain where
  "chain_memo = \<lparr>chain_arr = [createGenesisBlock prefix00, rehashed], difficulty = 2\<rparr>"

text \<open>
  A second instance for witnesses, again not SHA-256 and without collisions: the digest
  begins with \<^verbatim>\<open>00\<close> when the string hashed ends in \<^verbatim>\<open>1\<close>, and with \<^verbatim>\<open>ff\<close> otherwise, so
  that the mining loop runs once on a block fresh from the constructor. \<open>script_heap\<close>
  holds the two blocks of the script at the end of \<^verbatim>\<open>main.js\<close>,
  \<^verbatim>\<open>new Block(1, "12/01/2018", { amount: 4 })\<close> at address 1 and
  \<^verbatim>\<open>new Block(2, "21/01/2018", { amount: 24 })\<close> at address 2; \<open>once\<close> is what a pass of the
  mining loop makes of a block.
\<close>

definition ends1 :: "string \<Rightarrow> string" where
  "ends1 s =
     (case rev s of [] \<Rightarrow> ''ff'' | c # cs \<Rightarrow> if c = CHR ''1'' then ''00'' else ''ff'') @ s"

definition script_heap :: "ref \<Rightarrow> block" where
  "script_heap =
     (\<lambda>r. Block ends1 1 ''12/01/2018'' (JObj [(''amount'', JNum 4)]) None)
       (2 := Block ends1 2 ''21/01/2018'' (JObj [(''amount'', JNum 24)]) None)"

definition once :: "(string \<Rightarrow> string) \<Rightarrow> block \<Rightarrow> block" where
  "once SHA256 b =
     b\<lparr>nonce := increment (nonce b),
       hash := calculateHash SHA256 (b\<lparr>nonce := increment (nonce b)\<rparr>)\<rparr>"

text \<open>
  The states the examples end in. \<open>twice\<close>: a fresh chain under \<open>prefix00\<close> after the object
  at address 1, which holds \<open>memo\<close>, has been appended two times. \<open>script_final\<close>: a fresh
  chain under \<open>ends1\<close> after the two objects of \<open>script_heap\<close> have been appended, each
  mined by one pass of the loop.
\<close>

definition twice :: objects where
  "twice =
     \<lparr>heap = (\<lambda>r. memo)(0 := createGenesisBlock prefix00,
                          1 := memo\<lparr>previousHash := Some (hash memo)\<rparr>),
      chain_refs = [0, 1, 1], chain_difficulty = 2\<rparr>"

definition script1 :: block where
  "script1 =
     once ends1 ((script_heap 1)\<lparr>previousHash := Some (hash (createGenesisBlock ends1))\<rparr>)"

definition script2 :: block where
  "script2 = once ends1 ((script_heap 2)\<lparr>previousHash := Some (hash script1)\<rparr>)"

definition script_final :: objects where
  "script_final =
     \<lparr>heap = script_heap(0 := createGenesisBlock ends1, 1 := script1, 2 := script2),
      chain_refs = [0, 1, 2], chain_difficulty = 2\<rparr>"

section \<open>General lemmas\<close>

declare dec.simps [simp del]
declare isChainValid_loop.simps [simp del]

lemma calculateHash_eq: "calculateHash H this = H (hash_input this)"
  by (simp add: calculateHash_def calculateHash_run_def)

lemma hash_input_hash_update [simp]: "hash_input (this\<lparr>hash := h\<rparr>) = hash_input this"
  by (simp add: hash_input_def split: option.split)

lemma calculateHash_hash_update [simp]: "calculateHash H (this\<lparr>hash := h\<rparr>) = calculateHash H this"
  by (simp add: calculateHash_eq)

lemma calculateHash_same_text:
  "JSON_stringify d' = JSON_stringify (data this) \<Longrightarrow>
   calculateHash H (this\<lparr>data := d'\<rparr>) = calculateHash H this"
  by (simp add: calculateHash_eq hash_input_def split: option.split)

subsection \<open>The validity loop\<close>

lemma isChainValid_loop_fst:
  "fst (isChainValid_loop H i this) \<longleftrightarrow>
     (\<forall>j. i \<le> j \<and> j < length (chain_arr this) \<longrightarrow> block_ok H (chain_arr this) j)"
proof (induction H i this rule: isChainValid_loop.induct)
  case (1 H i this)
  show ?case
  proof (cases "i < length (chain_arr this)")
    case False
    then show ?thesis
      by (subst isChainValid_loop.simps) auto
  next
    case in_range: True
    show ?thesis
    proof (cases "block_ok H (chain_arr this) i")
      case False
      then have "\<not> fst (isChainValid_loop H i this)"
        using in_range by (subst isChainValid_loop.simps) (auto simp: block_ok_def Let_def)
      moreover have "\<not> (\<forall>j. i \<le> j \<and> j < length (chain_arr this) \<longrightarrow> block_ok H (chain_arr this) j)"
        using False in_range by auto
      ultimately show ?thesis by simp
    next
      case True
      then have step: "isChainValid_loop H i this = isChainValid_loop H (i + 1) this"
        using in_range by (subst isChainValid_loop.simps) (simp add: block_ok_def Let_def)
      have ih: "fst (isChainValid_loop H (i + 1) this) \<longleftrightarrow>
                  (\<forall>j. i + 1 \<le> j \<and> j < length (chain_arr this) \<longrightarrow> block_ok H (chain_arr this) j)"
        using "1.IH" [OF in_range refl refl] True by (simp add: block_ok_def)
      have "(\<forall>j. i \<le> j \<and> j < length (chain_arr this) \<longrightarrow> block_ok H (chain_arr this) j) \<longleftrightarrow>
            (\<forall>j. i + 1 \<le> j \<and> j < length (chain_arr this) \<longrightarrow> block_ok H (chain_arr this) j)"
      proof
        assume "\<forall>j. i \<le> j \<and> j < length (chain_arr this) \<longrightarrow> block_ok H (chain_arr this) j"
        then show "\<forall>j. i + 1 \<le> j \<and> j < length (chain_arr this) \<longrightarrow> block_ok H (chain_arr this) j"
          by simp
      next
        assume a: "\<forall>j. i + 1 \<le> j \<and> j < length (chain_arr this) \<longrightarrow> block_ok H (chain_arr this) j"
        show "\<forall>j. i \<le> j \<and> j < length (chain_arr this) \<longrightarrow> block_ok H (chain_arr this) j"
        proof (intro allI impI)
          fix j assume "i \<le> j \<and> j < length (chain_arr this)"
          then have "j = i \<or> (i + 1 \<le> j \<and> j < length (chain_arr this))" by arith
          then show "block_ok H (chain_arr this) j" using a True by blast
        qed
      qed
      with step ih show ?thesis by simp
    qed
  qed
qed

lemma isChainValid_loop_snd: "snd (isChainValid_loop H i this) = this"
proof (induction H i this rule: isChainValid_loop.induct)
  case (1 H i this)
  show ?case
    using "1.IH" by (subst isChainValid_loop.simps) (simp add: Let_def)
qed

lemma isChainValid_iff:
  "isChainValid H this \<longleftrightarrow>
     (\<forall>j. 1 \<le> j \<and> j < length (chain_arr this) \<longrightarrow> block_ok H (chain_arr this) j)"
  by (simp add: isChainValid_def isChainValid_run_def isChainValid_loop_fst)

subsection \<open>The mining loop\<close>

lemma mineBlock_now:
  "d + 1 \<le> 4294967295 \<Longrightarrow> take d (hash b) = replicate d CHR ''0'' \<Longrightarrow> mineBlock H d b = Some (Inr b)"
  by (subst mineBlock.simps) simp

lemma mineBlock_step:
  "d + 1 \<le> 4294967295 \<Longrightarrow> take d (hash b) \<noteq> replicate d CHR ''0'' \<Longrightarrow>
   mineBlock H d b =
     mineBlock H d (b\<lparr>nonce := increment (nonce b),
                    hash := calculateHash H (b\<lparr>nonce := increment (nonce b)\<rparr>)\<rparr>)"
  by (subst mineBlock.simps) (simp add: Let_def)

lemma mineBlock_mined:
  assumes "mineBlock H d b = Some r"
  shows "mined H d b r"
proof (induction H d b r rule: mineBlock.raw_induct)
  case (1 f H d b r)
  show ?case
  proof (cases "4294967295 < d + 1")
    case True
    with 1(2) show ?thesis by (auto simp: mined_def)
  next
    case small: False
    show ?thesis
    proof (cases "take d (hash b) \<noteq> replicate d CHR ''0''")
      case False
      with 1(2) small show ?thesis by (auto simp: mined_def)
    next
      case True
      define b2 where "b2 = b\<lparr>nonce := increment (nonce b), hash := calculateHash H (b\<lparr>nonce := increment (nonce b)\<rparr>)\<rparr>"
      from 1(2) small True have "f H d b2 = Some r"
        by (simp add: Let_def b2_def)
      then have m: "mined H d b2 r" by (rule 1(1))
      have c: "hash b2 = calculateHash H b2"
        by (simp add: b2_def)
      show ?thesis
      proof (cases r)
        case (Inl e)
        with m show ?thesis by (simp add: mined_def)
      next
        case (Inr b')
        with m c show ?thesis by (auto simp: mined_def b2_def)
      qed
    qed
  qed
qed (rule assms)

lemma mineBlock_zeros:
  "mineBlock H d b = Some (Inr b') \<Longrightarrow> take d (hash b') = replicate d CHR ''0''"
  by (drule mineBlock_mined) (simp add: mined_def)

lemma mineBlock_hash:
  "mineBlock H d b = Some (Inr b') \<Longrightarrow> b' = b \<or> hash b' = calculateHash H b'"
  by (drule mineBlock_mined) (simp add: mined_def)

lemma mineBlock_previousHash:
  "mineBlock H d b = Some (Inr b') \<Longrightarrow> previousHash b' = previousHash b"
  by (drule mineBlock_mined) (simp add: mined_def)

subsection \<open>Appending\<close>

lemma linked_snoc:
  assumes "linked bs" and "bs \<noteq> []" and "previousHash b = Some (hash (last bs))"
  shows "linked (bs @ [b])"
  unfolding linked_def
proof (intro allI impI)
  fix i assume i: "1 \<le> i \<and> i < length (bs @ [b])"
  show "previousHash ((bs @ [b]) ! i) = Some (hash ((bs @ [b]) ! (i - 1)))"
  proof (cases "i < length bs")
    case True
    with i have "i - 1 < length bs" by simp
    with True i assms(1) show ?thesis by (simp add: linked_def nth_append)
  next
    case False
    with i have e: "i = length bs" by simp
    with assms(2) have "(bs @ [b]) ! (i - 1) = last bs"
      by (simp add: nth_append last_conv_nth)
    with e assms(3) show ?thesis by simp
  qed
qed

lemma deref_new_Blockchain: "deref (new_Blockchain H h g) = Blockchain H"
  by (simp add: deref_def new_Blockchain_def Blockchain_def)

lemma addBlock_Inr:
  assumes "addBlock H this r = Some (Inr this')"
  obtains b where "chain_refs this \<noteq> []"
    and "mineBlock H (chain_difficulty this)
           ((heap this r)\<lparr>previousHash := Some (hash (heap this (last (chain_refs this))))\<rparr>) =
         Some (Inr b)"
    and "this' = this\<lparr>heap := (heap this)(r := b), chain_refs := chain_refs this @ [r]\<rparr>"
  using assms
  by (auto simp: addBlock_def getLatestBlock_def deref_def Let_def last_map
      split: if_splits option.splits sum.splits)

lemma addBlock_linked:
  assumes "addBlock H this r = Some (Inr this')"
    and "linked (chain_arr (deref this))" and "r \<notin> set (chain_refs this)"
  shows "linked (chain_arr (deref this'))" and "chain_refs this' = chain_refs this @ [r]"
proof -
  from assms(1) obtain b where ne: "chain_refs this \<noteq> []"
    and m: "mineBlock H (chain_difficulty this)
              ((heap this r)\<lparr>previousHash := Some (hash (heap this (last (chain_refs this))))\<rparr>) =
            Some (Inr b)"
    and eq: "this' = this\<lparr>heap := (heap this)(r := b), chain_refs := chain_refs this @ [r]\<rparr>"
    by (rule addBlock_Inr)
  from eq show "chain_refs this' = chain_refs this @ [r]" by simp
  let ?bs = "map (heap this) (chain_refs this)"
  from m have "previousHash b = Some (hash (heap this (last (chain_refs this))))"
    by (simp add: mineBlock_previousHash)
  with ne have p: "previousHash b = Some (hash (last ?bs))"
    by (simp add: last_map)
  from assms(2) have "linked ?bs" by (simp add: deref_def)
  moreover from ne have "?bs \<noteq> []" by simp
  ultimately have "linked (?bs @ [b])" using p by (rule linked_snoc)
  moreover from eq assms(3) have "chain_arr (deref this') = ?bs @ [b]"
    by (simp add: deref_def)
  ultimately show "linked (chain_arr (deref this'))" by simp
qed

lemma addBlocks_linked:
  "addBlocks H this rs = Some (Inr this') \<Longrightarrow> linked (chain_arr (deref this)) \<Longrightarrow>
   distinct rs \<Longrightarrow> set rs \<inter> set (chain_refs this) = {} \<Longrightarrow>
   linked (chain_arr (deref this'))"
proof (induction rs arbitrary: this)
  case Nil
  then show ?case by simp
next
  case (Cons r rs)
  from Cons.prems(1) obtain mid where a: "addBlock H this r = Some (Inr mid)"
    and rest: "addBlocks H mid rs = Some (Inr this')"
    by (auto split: option.splits sum.splits)
  from Cons.prems(4) have fresh: "r \<notin> set (chain_refs this)" by simp
  from a Cons.prems(2) fresh have l: "linked (chain_arr (deref mid))"
    and c: "chain_refs mid = chain_refs this @ [r]"
    by (rule addBlock_linked)+
  from Cons.prems(3) have d: "distinct rs" by simp
  from Cons.prems(3,4) c have "set rs \<inter> set (chain_refs mid) = {}" by auto
  with rest l d show ?case by (rule Cons.IH)
qed

lemma linked_Blockchain: "linked (chain_arr (Blockchain H))"
  by (simp add: linked_def Blockchain_def)

subsection \<open>Evaluation of the string forms\<close>

lemma dec_digit: "n < 10 \<Longrightarrow> dec n = [''0123456789'' ! n]"
  by (subst dec.simps) simp

lemma dec_more: "10 \<le> n \<Longrightarrow> dec n = dec (n div 10) @ [''0123456789'' ! (n mod 10)]"
  by (subst dec.simps) simp

lemmas js_eval =
  hash_input_def dec_digit dec_more dec_int_def json_quote_def json_escape_def

subsection \<open>Constructed blocks and short chains\<close>

lemma Block_eq:
  "Block H i t d p =
     \<lparr>index = i, timestamp = t, data = d, previousHash = p,
      hash = H (hash_input \<lparr>index = i, timestamp = t, data = d, previousHash = p,
                            hash = [], nonce = Undefined\<rparr>),
      nonce = Num 0\<rparr>"
  by (simp add: Block_def calculateHash_eq)

lemma hash_input_nonce:
  "hash_input (this\<lparr>nonce := n\<rparr>) = hash_input (this\<lparr>nonce := Undefined\<rparr>) \<longleftrightarrow>
     ToString n = ''undefined''"
  by (simp add: hash_input_def split: option.split)

lemma createGenesisBlock_eq:
  "createGenesisBlock H =
     \<lparr>index = 0, timestamp = ''01/01/2018'', data = JStr ''Genesis Block'',
      previousHash = Some ''0'',
      hash = H ''0001/01/2018\"Genesis Block\"undefined'',
      nonce = Num 0\<rparr>"
  by (simp add: createGenesisBlock_def Block_eq js_eval)

lemma isChainValid_two:
  "isChainValid H \<lparr>chain_arr = [a, b], difficulty = d\<rparr> \<longleftrightarrow>
     hash b = calculateHash H b \<and> previousHash b = Some (hash a)"
proof -
  have "isChainValid H \<lparr>chain_arr = [a, b], difficulty = d\<rparr> \<longleftrightarrow>
          (\<forall>j. 1 \<le> j \<and> j < length [a, b] \<longrightarrow> block_ok H [a, b] j)"
    by (simp add: isChainValid_iff)
  also have "\<dots> \<longleftrightarrow> block_ok H [a, b] 1"
  proof
    assume "\<forall>j. 1 \<le> j \<and> j < length [a, b] \<longrightarrow> block_ok H [a, b] j"
    then show "block_ok H [a, b] 1" by simp
  next
    assume ok: "block_ok H [a, b] 1"
    show "\<forall>j. 1 \<le> j \<and> j < length [a, b] \<longrightarrow> block_ok H [a, b] j"
    proof (intro allI impI)
      fix j :: nat assume "1 \<le> j \<and> j < length [a, b]"
      then have "j = 1" by simp
      with ok show "block_ok H [a, b] j" by simp
    qed
  qed
  also have "\<dots> \<longleftrightarrow> hash b = calculateHash H b \<and> previousHash b = Some (hash a)"
    by (simp add: block_ok_def)
  finally show ?thesis .
qed

lemma isChainValid_single: "length (chain_arr this) = 1 \<Longrightarrow> isChainValid H this"
  by (simp add: isChainValid_iff)

lemma memo_eq:
  "memo =
     \<lparr>index = 1, timestamp = ''12/01/2018'',
      data = JObj [(''amount'', JNum 802), (''memo'', JUndefined)],
      previousHash = None,
      hash = ''00NaN12/01/2018{\"amount\":802}undefined'',
      nonce = Num 0\<rparr>"
  by (simp add: memo_def Block_eq js_eval prefix00_def)

lemma rehashed_eq:
  "rehashed =
     \<lparr>index = 1, timestamp = ''12/01/2018'',
      data = JObj [(''amount'', JNum 802), (''memo'', JUndefined)],
      previousHash = Some ''000001/01/2018\"Genesis Block\"undefined'',
      hash = ''001000001/01/2018\"Genesis Block\"undefined12/01/2018{\"amount\":802}0'',
      nonce = Num 0\<rparr>"
  by (simp add: rehashed_def memo_eq createGenesisBlock_eq calculateHash_eq js_eval prefix00_def)

lemma calculateHash_rehashed: "calculateHash prefix00 rehashed = hash rehashed"
  by (simp add: rehashed_def Let_def)

lemma isChainValid_chain_memo: "isChainValid prefix00 chain_memo"
  by (simp add: chain_memo_def isChainValid_two calculateHash_rehashed)
    (simp add: rehashed_def Let_def)

subsection \<open>Mining under \<open>ends1\<close>\<close>

lemma ends1_1: "ends1 (s @ ''1'') = ''00'' @ s @ ''1''"
  by (simp add: ends1_def)

lemma ends1_undefined: "ends1 (s @ ''undefined'') = ''ff'' @ s @ ''undefined''"
  by (simp add: ends1_def)

lemma Block_ends1:
  "nonce (Block ends1 i t d p) = Num 0" "take 2 (hash (Block ends1 i t d p)) = ''ff''"
proof -
  show "nonce (Block ends1 i t d p) = Num 0" by (simp add: Block_eq)
  have "hash (Block ends1 i t d p) =
      ends1 (((case p of None \<Rightarrow> ''NaN'' | Some q \<Rightarrow> dec i @ q) @ t @
              (case JSON_stringify d of None \<Rightarrow> ''undefined'' | Some s \<Rightarrow> s)) @ ''undefined'')"
    by (simp add: Block_eq hash_input_def split: option.split)
  then show "take 2 (hash (Block ends1 i t d p)) = ''ff''"
    by (simp only: ends1_undefined) simp
qed

lemma once_hash: "hash (once H b) = calculateHash H (once H b)"
  by (simp add: once_def)

lemma once_fields:
  "previousHash (once H b) = previousHash b" "nonce (once H b) = increment (nonce b)"
  by (simp_all add: once_def)

lemma mineBlock_once_ends1:
  assumes "nonce b = Num 0" and "take 2 (hash b) = ''ff''"
  shows "mineBlock ends1 2 b = Some (Inr (once ends1 b))"
proof -
  from assms(2) have "take 2 (hash b) \<noteq> replicate 2 CHR ''0''"
    by (simp add: numeral_2_eq_2)
  then have "mineBlock ends1 2 b = mineBlock ends1 2 (once ends1 b)"
    unfolding once_def by (intro mineBlock_step) simp_all
  also have "\<dots> = Some (Inr (once ends1 b))"
  proof (rule mineBlock_now)
    have "hash (once ends1 b) =
        ends1 (((case previousHash b of None \<Rightarrow> ''NaN'' | Some q \<Rightarrow> dec (index b) @ q) @
                timestamp b @
                (case JSON_stringify (data b) of None \<Rightarrow> ''undefined'' | Some s \<Rightarrow> s)) @ ''1'')"
      using assms(1)
      by (simp add: once_def calculateHash_eq hash_input_def dec_digit split: option.split)
    then show "take 2 (hash (once ends1 b)) = replicate 2 CHR ''0''"
      by (simp only: ends1_1) (simp add: numeral_2_eq_2)
  qed simp
  finally show ?thesis .
qed

lemma addBlock_ends1:
  assumes "chain_refs s \<noteq> []" and "chain_difficulty s = 2"
    and "nonce (heap s r) = Num 0" and "take 2 (hash (heap s r)) = ''ff''"
  shows "addBlock ends1 s r =
     Some (Inr (s\<lparr>heap := (heap s)(r := once ends1
                    ((heap s r)\<lparr>previousHash := Some (hash (heap s (last (chain_refs s))))\<rparr>)),
                 chain_refs := chain_refs s @ [r]\<rparr>))"
proof -
  have "mineBlock ends1 2
      ((heap s r)\<lparr>previousHash := Some (hash (heap s (last (chain_refs s))))\<rparr>) =
    Some (Inr (once ends1
      ((heap s r)\<lparr>previousHash := Some (hash (heap s (last (chain_refs s))))\<rparr>)))"
    using assms(3,4) by (intro mineBlock_once_ends1) simp_all
  with assms(1,2) show ?thesis
    by (simp add: addBlock_def getLatestBlock_def deref_def last_map)
qed

section \<open>The claims\<close>

text \<open>
  C1. After \<^verbatim>\<open>mineBlock(d)\<close> returns, the hash has at least \<open>d\<close> leading zeros
  (\<open>mineBlock_zeros\<close> above, for every block, every \<open>d\<close> and every hash function), and the
  hash should equal \<^verbatim>\<open>calculateHash()\<close> of the block. The second part fails when the loop
  body never runs, and with \<open>d = 0\<close> it never does: \<^verbatim>\<open>mineBlock(0)\<close> returns a block fresh
  from the constructor as it is, with the hash of the string that ends in \<^verbatim>\<open>undefined\<close>,
  while \<^verbatim>\<open>calculateHash()\<close> hashes another string.
\<close>

theorem C1_mineBlock_keeps_stale_hash:
  "mineBlock H 0 (Block H i t d p) = Some (Inr (Block H i t d p)) \<and>
   hash (Block H i t d p) = H (hash_input ((Block H i t d p)\<lparr>nonce := Undefined\<rparr>)) \<and>
   calculateHash H (Block H i t d p) = H (hash_input (Block H i t d p)) \<and>
   hash_input (Block H i t d p) \<noteq> hash_input ((Block H i t d p)\<lparr>nonce := Undefined\<rparr>)"
proof (intro conjI)
  show "mineBlock H 0 (Block H i t d p) = Some (Inr (Block H i t d p))"
    by (rule mineBlock_now) simp_all
  show "hash (Block H i t d p) = H (hash_input ((Block H i t d p)\<lparr>nonce := Undefined\<rparr>))"
    by (simp add: Block_eq hash_input_def split: option.split)
  show "calculateHash H (Block H i t d p) = H (hash_input (Block H i t d p))"
    by (rule calculateHash_eq)
  have same: "(Block H i t d p)\<lparr>nonce := Num 0\<rparr> = Block H i t d p"
    by (simp add: Block_eq)
  have "ToString (Num 0) \<noteq> ''undefined''"
    by (simp add: dec_digit)
  then have "hash_input ((Block H i t d p)\<lparr>nonce := Num 0\<rparr>) \<noteq>
      hash_input ((Block H i t d p)\<lparr>nonce := Undefined\<rparr>)"
    by (simp only: hash_input_nonce not_False_eq_True)
  then show "hash_input (Block H i t d p) \<noteq>
      hash_input ((Block H i t d p)\<lparr>nonce := Undefined\<rparr>)"
    unfolding same .
qed

text \<open>
  C2. The constructor should return a block with nonce 0 whose hash is \<^verbatim>\<open>calculateHash()\<close>
  of the block. The nonce is 0, but the hash was computed before the nonce was assigned:
  for the genesis block, \<^verbatim>\<open>new Block(0, "01/01/2018", "Genesis Block", "0")\<close>, the stored
  hash is that of a string ending in \<^verbatim>\<open>undefined\<close>, and \<^verbatim>\<open>calculateHash()\<close> hashes the
  string ending in \<^verbatim>\<open>0\<close>.
\<close>

theorem C2_constructor_hashes_before_nonce:
  "nonce (createGenesisBlock H) = Num 0 \<and>
   hash (createGenesisBlock H) = H ''0001/01/2018\"Genesis Block\"undefined'' \<and>
   calculateHash H (createGenesisBlock H) = H ''0001/01/2018\"Genesis Block\"0'' \<and>
   ''0001/01/2018\"Genesis Block\"undefined'' \<noteq> ''0001/01/2018\"Genesis Block\"0''"
  by (simp add: createGenesisBlock_eq calculateHash_eq js_eval)

text \<open>
  C3. A fresh chain with blocks appended by \<^verbatim>\<open>addBlock\<close> should be valid. When the hash
  that the constructor stored in a block already begins with \<^verbatim>\<open>00\<close>, \<^verbatim>\<open>addBlock\<close> sets
  \<open>previousHash\<close> and \<^verbatim>\<open>mineBlock\<close> returns at once: the block enters the chain with the old
  hash, and unless that happens to be the hash of its new contents, \<^verbatim>\<open>isChainValid()\<close>
  returns false.
\<close>

theorem C3_appended_chain_invalid:
  assumes "take 2 (hash (h r)) = ''00''"
    and "H (hash_input ((h r)\<lparr>previousHash := Some (hash (createGenesisBlock H))\<rparr>)) \<noteq>
           hash (h r)"
    and "r \<noteq> g"
  shows "addBlock H (new_Blockchain H h g) r =
           Some (Inr \<lparr>heap = (h(g := createGenesisBlock H))
                             (r := (h r)\<lparr>previousHash := Some (hash (createGenesisBlock H))\<rparr>),
                      chain_refs = [g, r], chain_difficulty = 2\<rparr>) \<and>
         deref \<lparr>heap = (h(g := createGenesisBlock H))
                        (r := (h r)\<lparr>previousHash := Some (hash (createGenesisBlock H))\<rparr>),
                chain_refs = [g, r], chain_difficulty = 2\<rparr> =
           \<lparr>chain_arr = [createGenesisBlock H,
                         (h r)\<lparr>previousHash := Some (hash (createGenesisBlock H))\<rparr>],
            difficulty = 2\<rparr> \<and>
         \<not> isChainValid H
             \<lparr>chain_arr = [createGenesisBlock H,
                           (h r)\<lparr>previousHash := Some (hash (createGenesisBlock H))\<rparr>],
              difficulty = 2\<rparr>"
proof -
  let ?b = "(h r)\<lparr>previousHash := Some (hash (createGenesisBlock H))\<rparr>"
  from assms(1) have "mineBlock H 2 ?b = Some (Inr ?b)"
    by (intro mineBlock_now) (simp_all add: numeral_2_eq_2)
  with assms(3) have "addBlock H (new_Blockchain H h g) r =
      Some (Inr \<lparr>heap = (h(g := createGenesisBlock H))(r := ?b),
                 chain_refs = [g, r], chain_difficulty = 2\<rparr>)"
    by (simp add: addBlock_def getLatestBlock_def deref_def new_Blockchain_def)
  moreover from assms(3) have "deref \<lparr>heap = (h(g := createGenesisBlock H))(r := ?b),
      chain_refs = [g, r], chain_difficulty = 2\<rparr> =
      \<lparr>chain_arr = [createGenesisBlock H, ?b], difficulty = 2\<rparr>"
    by (simp add: deref_def)
  moreover from assms(2) have "hash ?b \<noteq> calculateHash H ?b"
    by (auto simp: calculateHash_eq)
  then have "\<not> isChainValid H \<lparr>chain_arr = [createGenesisBlock H, ?b], difficulty = 2\<rparr>"
    by (simp add: isChainValid_two)
  ultimately show ?thesis by simp
qed

theorem C3_appended_chain_invalid_witness:
  "take 2 (hash memo) = ''00'' \<and>
   prefix00 (hash_input (memo\<lparr>previousHash := Some (hash (createGenesisBlock prefix00))\<rparr>)) \<noteq>
     hash memo \<and>
   (1::nat) \<noteq> 0 \<and>
   addBlock prefix00 (new_Blockchain prefix00 (\<lambda>r. memo) 0) 1 =
     Some (Inr \<lparr>heap = (\<lambda>r. memo)(0 := createGenesisBlock prefix00,
                   1 := memo\<lparr>previousHash := Some (hash (createGenesisBlock prefix00))\<rparr>),
                chain_refs = [0, 1], chain_difficulty = 2\<rparr>) \<and>
   \<not> isChainValid prefix00
       \<lparr>chain_arr = [createGenesisBlock prefix00,
                     memo\<lparr>previousHash := Some (hash (createGenesisBlock prefix00))\<rparr>],
        difficulty = 2\<rparr>"
proof -
  have z: "take 2 (hash ((\<lambda>r. memo) (1::nat))) = ''00''"
    by (simp add: memo_eq)
  have n: "prefix00 (hash_input (((\<lambda>r. memo) (1::nat))
      \<lparr>previousHash := Some (hash (createGenesisBlock prefix00))\<rparr>)) \<noteq> hash ((\<lambda>r. memo) (1::nat))"
    by (simp add: memo_eq createGenesisBlock_eq js_eval prefix00_def)
  have d: "(1::nat) \<noteq> 0" by simp
  from C3_appended_chain_invalid [where h = "\<lambda>r. memo" and r = 1 and g = 0 and H = prefix00,
      OF z n d] z n
  show ?thesis by simp
qed

text \<open>
  C4. Tampering with the second block of a valid chain. As claimed, any change of
  \<open>data\<close> would be detected; but the hash covers \<^verbatim>\<open>JSON.stringify(data)\<close> only. On a valid
  chain whose second block carries \<^verbatim>\<open>{ amount: 802, memo: undefined }\<close>, the assignment
  \<^verbatim>\<open>chain[1].data = { amount: 802 }\<close> changes the data and not that text: the chain is valid
  before and after, even under a hash function without collisions.
\<close>

theorem C4_data_change_undetected:
  "isChainValid prefix00 chain_memo \<and>
   2 \<le> length (chain_arr chain_memo) \<and>
   data (chain_arr chain_memo ! 1) = JObj [(''amount'', JNum 802), (''memo'', JUndefined)] \<and>
   data (chain_arr chain_memo ! 1) \<noteq> JObj [(''amount'', JNum 802)] \<and>
   set_data chain_memo 1 (JObj [(''amount'', JNum 802)]) =
     Inr (chain_memo\<lparr>chain_arr :=
            [createGenesisBlock prefix00, rehashed\<lparr>data := JObj [(''amount'', JNum 802)]\<rparr>]\<rparr>) \<and>
   isChainValid prefix00 (chain_memo\<lparr>chain_arr :=
     [createGenesisBlock prefix00, rehashed\<lparr>data := JObj [(''amount'', JNum 802)]\<rparr>]\<rparr>)"
proof -
  have "JSON_stringify (JObj [(''amount'', JNum 802)]) = JSON_stringify (data rehashed)"
    by (simp add: rehashed_eq)
  then have "calculateHash prefix00 (rehashed\<lparr>data := JObj [(''amount'', JNum 802)]\<rparr>) =
      hash rehashed"
    using calculateHash_rehashed by (simp add: calculateHash_same_text)
  then have "isChainValid prefix00 (chain_memo\<lparr>chain_arr :=
      [createGenesisBlock prefix00, rehashed\<lparr>data := JObj [(''amount'', JNum 802)]\<rparr>]\<rparr>)"
    by (simp add: chain_memo_def isChainValid_two)
      (simp add: rehashed_eq createGenesisBlock_eq prefix00_def)
  moreover have "data (chain_arr chain_memo ! 1) =
      JObj [(''amount'', JNum 802), (''memo'', JUndefined)]"
    by (simp add: chain_memo_def rehashed_eq)
  moreover have "set_data chain_memo 1 (JObj [(''amount'', JNum 802)]) =
     Inr (chain_memo\<lparr>chain_arr :=
            [createGenesisBlock prefix00, rehashed\<lparr>data := JObj [(''amount'', JNum 802)]\<rparr>]\<rparr>)"
    by (simp add: set_data_def chain_memo_def)
  moreover have "2 \<le> length (chain_arr chain_memo)"
    by (simp add: chain_memo_def)
  ultimately show ?thesis
    using isChainValid_chain_memo by simp
qed

text \<open>
  C4, amended. Given a valid chain of at least two blocks: (a) after an assignment to
  \<open>data\<close> of the second block, \<^verbatim>\<open>isChainValid()\<close> returns false exactly when the hash
  recomputed from the new contents differs from the stored one; (b) an assignment of a
  different string to its \<open>hash\<close> makes \<^verbatim>\<open>isChainValid()\<close> return false; (c) so does an
  assignment to its \<open>previousHash\<close> of a value that is not the hash of the first block.
\<close>

theorem C4_tamper_detection:
  assumes valid: "isChainValid H c"
    and len: "2 \<le> length (chain_arr c)"
    and a: "set_data c 1 d' = Inr ca"
    and b: "set_hash c 1 h' = Inr cb" "h' \<noteq> hash (chain_arr c ! 1)"
    and c: "set_previousHash c 1 p' = Inr cc" "p' \<noteq> Some (hash (chain_arr c ! 0))"
  shows "(isChainValid H ca \<longleftrightarrow>
            calculateHash H ((chain_arr c ! 1)\<lparr>data := d'\<rparr>) = hash (chain_arr c ! 1)) \<and>
         \<not> isChainValid H cb \<and> \<not> isChainValid H cc"
proof (intro conjI)
  let ?bs = "chain_arr c"
  from len have one: "1 < length ?bs" by simp
  from valid have ok: "\<And>j. 1 \<le> j \<Longrightarrow> j < length ?bs \<Longrightarrow> block_ok H ?bs j"
    by (simp add: isChainValid_iff)
  from ok [of 1] one have ok1: "hash (?bs ! 1) = calculateHash H (?bs ! 1)"
      "previousHash (?bs ! 1) = Some (hash (?bs ! 0))"
    by (simp_all add: block_ok_def)
  from a one have ca: "chain_arr ca = ?bs[1 := (?bs ! 1)\<lparr>data := d'\<rparr>]"
    by (auto simp: set_data_def)
  from b(1) one have cb: "chain_arr cb = ?bs[1 := (?bs ! 1)\<lparr>hash := h'\<rparr>]"
    by (auto simp: set_hash_def)
  from c(1) one have cc: "chain_arr cc = ?bs[1 := (?bs ! 1)\<lparr>previousHash := p'\<rparr>]"
    by (auto simp: set_previousHash_def)
  have rest: "block_ok H (chain_arr ca) j" if j: "2 \<le> j" "j < length ?bs" for j
  proof -
    from j ok [of j] have "block_ok H ?bs j" by simp
    moreover from j have "chain_arr ca ! j = ?bs ! j"
      by (simp add: ca)
    moreover from j one have "hash (chain_arr ca ! (j - 1)) = hash (?bs ! (j - 1))"
      by (cases "j - 1 = 1") (simp_all add: ca)
    ultimately show ?thesis by (simp add: block_ok_def)
  qed
  have first: "block_ok H (chain_arr ca) 1 \<longleftrightarrow>
      calculateHash H ((?bs ! 1)\<lparr>data := d'\<rparr>) = hash (?bs ! 1)"
    using one ok1 by (auto simp: block_ok_def ca)
  show "isChainValid H ca \<longleftrightarrow> calculateHash H ((?bs ! 1)\<lparr>data := d'\<rparr>) = hash (?bs ! 1)"
  proof
    assume "isChainValid H ca"
    then have "block_ok H (chain_arr ca) 1"
      using one by (simp add: isChainValid_iff ca)
    with first show "calculateHash H ((?bs ! 1)\<lparr>data := d'\<rparr>) = hash (?bs ! 1)" by simp
  next
    assume "calculateHash H ((?bs ! 1)\<lparr>data := d'\<rparr>) = hash (?bs ! 1)"
    with first have f: "block_ok H (chain_arr ca) 1" by simp
    have "block_ok H (chain_arr ca) j" if j: "1 \<le> j" "j < length (chain_arr ca)" for j
    proof (cases "j = 1")
      case True
      with f show ?thesis by simp
    next
      case False
      with j have "2 \<le> j" "j < length ?bs" by (simp_all add: ca)
      then show ?thesis by (rule rest)
    qed
    then show "isChainValid H ca" by (simp add: isChainValid_iff)
  qed
  show "\<not> isChainValid H cb"
  proof
    assume "isChainValid H cb"
    then have "block_ok H (chain_arr cb) 1"
      using one by (simp add: isChainValid_iff cb)
    then have "h' = calculateHash H (?bs ! 1)"
      using one by (simp add: block_ok_def cb)
    with ok1(1) b(2) show False by simp
  qed
  show "\<not> isChainValid H cc"
  proof
    assume "isChainValid H cc"
    then have "block_ok H (chain_arr cc) 1"
      using one by (simp add: isChainValid_iff cc)
    then have "p' = Some (hash (?bs ! 0))"
      using one by (simp add: block_ok_def cc)
    with c(2) show False by simp
  qed
qed

theorem C4_tamper_detection_witness:
  "isChainValid prefix00 chain_memo \<and> 2 \<le> length (chain_arr chain_memo) \<and>
   set_data chain_memo 1 (JObj [(''amount'', JNum 400)]) =
     Inr (chain_memo\<lparr>chain_arr :=
            [createGenesisBlock prefix00, rehashed\<lparr>data := JObj [(''amount'', JNum 400)]\<rparr>]\<rparr>) \<and>
   set_hash chain_memo 1 ''00'' =
     Inr (chain_memo\<lparr>chain_arr := [createGenesisBlock prefix00, rehashed\<lparr>hash := ''00''\<rparr>]\<rparr>) \<and>
   ''00'' \<noteq> hash (chain_arr chain_memo ! 1) \<and>
   set_previousHash chain_memo 1 (Some ''0'') =
     Inr (chain_memo\<lparr>chain_arr :=
            [createGenesisBlock prefix00, rehashed\<lparr>previousHash := Some ''0''\<rparr>]\<rparr>) \<and>
   Some ''0'' \<noteq> Some (hash (chain_arr chain_memo ! 0)) \<and>
   \<not> isChainValid prefix00 (chain_memo\<lparr>chain_arr :=
        [createGenesisBlock prefix00, rehashed\<lparr>data := JObj [(''amount'', JNum 400)]\<rparr>]\<rparr>) \<and>
   \<not> isChainValid prefix00 (chain_memo\<lparr>chain_arr :=
        [createGenesisBlock prefix00, rehashed\<lparr>hash := ''00''\<rparr>]\<rparr>) \<and>
   \<not> isChainValid prefix00 (chain_memo\<lparr>chain_arr :=
        [createGenesisBlock prefix00, rehashed\<lparr>previousHash := Some ''0''\<rparr>]\<rparr>)"
proof -
  have v: "isChainValid prefix00 chain_memo" by (rule isChainValid_chain_memo)
  have l: "2 \<le> length (chain_arr chain_memo)" by (simp add: chain_memo_def)
  have a: "set_data chain_memo 1 (JObj [(''amount'', JNum 400)]) =
     Inr (chain_memo\<lparr>chain_arr :=
            [createGenesisBlock prefix00, rehashed\<lparr>data := JObj [(''amount'', JNum 400)]\<rparr>]\<rparr>)"
    by (simp add: set_data_def chain_memo_def)
  have b: "set_hash chain_memo 1 ''00'' =
     Inr (chain_memo\<lparr>chain_arr := [createGenesisBlock prefix00, rehashed\<lparr>hash := ''00''\<rparr>]\<rparr>)"
    by (simp add: set_hash_def chain_memo_def)
  have b': "''00'' \<noteq> hash (chain_arr chain_memo ! 1)"
    by (simp add: chain_memo_def rehashed_eq)
  have c: "set_previousHash chain_memo 1 (Some ''0'') =
     Inr (chain_memo\<lparr>chain_arr :=
            [createGenesisBlock prefix00, rehashed\<lparr>previousHash := Some ''0''\<rparr>]\<rparr>)"
    by (simp add: set_previousHash_def chain_memo_def)
  have c': "Some ''0'' \<noteq> Some (hash (chain_arr chain_memo ! 0))"
    by (simp add: chain_memo_def createGenesisBlock_eq prefix00_def)
  have d: "calculateHash prefix00 ((chain_arr chain_memo ! 1)\<lparr>data := JObj [(''amount'', JNum 400)]\<rparr>) \<noteq>
      hash (chain_arr chain_memo ! 1)"
    by (simp add: chain_memo_def rehashed_eq calculateHash_eq js_eval prefix00_def)
  from C4_tamper_detection [where H = prefix00, OF v l a b b' c c'] d v l a b b' c c'
  show ?thesis
    by simp
qed

text \<open>
  C5. Chain linkage: after any sequence of \<^verbatim>\<open>addBlock\<close> calls on a fresh chain, every block
  from the second on should carry the hash of its predecessor in \<open>previousHash\<close>. It does
  not when an object is appended that is in the chain already: \<^verbatim>\<open>addBlock\<close> assigns to the
  object it is given, so after \<^verbatim>\<open>c.addBlock(b); c.addBlock(b)\<close> the block at position 1 is
  \<open>b\<close> with its own hash as \<open>previousHash\<close>, not the hash of the genesis block.
\<close>

theorem C5_same_object_twice:
  "addBlocks prefix00 (new_Blockchain prefix00 (\<lambda>r. memo) 0) [1, 1] = Some (Inr twice) \<and>
   chain_refs twice = [0, 1, 1] \<and>
   (1::nat) \<le> 1 \<and> 1 < length (chain_arr (deref twice)) \<and>
   previousHash (chain_arr (deref twice) ! 1) = Some (hash memo) \<and>
   hash (chain_arr (deref twice) ! (1 - 1)) = hash (createGenesisBlock prefix00) \<and>
   previousHash (chain_arr (deref twice) ! 1) \<noteq> Some (hash (chain_arr (deref twice) ! (1 - 1)))"
proof -
  let ?g = "createGenesisBlock prefix00"
  let ?s1 = "\<lparr>heap = (\<lambda>r. memo)(0 := ?g, 1 := memo\<lparr>previousHash := Some (hash ?g)\<rparr>),
             chain_refs = [0, 1], chain_difficulty = 2\<rparr>"
  have m1: "mineBlock prefix00 2 (memo\<lparr>previousHash := Some (hash ?g)\<rparr>) =
      Some (Inr (memo\<lparr>previousHash := Some (hash ?g)\<rparr>))"
    by (rule mineBlock_now) (simp_all add: memo_eq numeral_2_eq_2)
  have a1: "addBlock prefix00 (new_Blockchain prefix00 (\<lambda>r. memo) 0) 1 = Some (Inr ?s1)"
    using m1 by (simp add: addBlock_def getLatestBlock_def deref_def new_Blockchain_def)
  have m2: "mineBlock prefix00 2 (memo\<lparr>previousHash := Some (hash memo)\<rparr>) =
      Some (Inr (memo\<lparr>previousHash := Some (hash memo)\<rparr>))"
    by (rule mineBlock_now) (simp_all add: memo_eq numeral_2_eq_2)
  have a2: "addBlock prefix00 ?s1 1 = Some (Inr twice)"
    using m2 by (simp add: addBlock_def getLatestBlock_def deref_def twice_def)
  have run: "addBlocks prefix00 (new_Blockchain prefix00 (\<lambda>r. memo) 0) [1, 1] = Some (Inr twice)"
    by (simp only: addBlocks.simps a1 a2 option.case sum.case)
  have "hash memo \<noteq> hash ?g"
    by (simp add: memo_eq createGenesisBlock_eq prefix00_def)
  with run show ?thesis
    by (simp add: twice_def deref_def)
qed

text \<open>
  C5, amended. After any sequence of \<^verbatim>\<open>addBlock\<close> calls on a fresh chain that all return
  and that append different objects, none of them the genesis block of the chain, every
  block from the second on carries the hash of its predecessor in \<open>previousHash\<close>. In the
  witness the two blocks of the script are appended and each is mined by a pass of the
  loop.
\<close>

theorem C5_chain_linkage:
  assumes "addBlocks H (new_Blockchain H h g) rs = Some (Inr c)"
    and "distinct rs" and "g \<notin> set rs"
    and "1 \<le> i" and "i < length (chain_arr (deref c))"
  shows "previousHash (chain_arr (deref c) ! i) = Some (hash (chain_arr (deref c) ! (i - 1)))"
proof -
  have start: "linked (chain_arr (deref (new_Blockchain H h g)))"
    by (simp add: deref_new_Blockchain linked_Blockchain)
  from assms(3) have fresh: "set rs \<inter> set (chain_refs (new_Blockchain H h g)) = {}"
    by (simp add: new_Blockchain_def)
  have "linked (chain_arr (deref c))"
    by (rule addBlocks_linked [OF assms(1) start assms(2) fresh])
  with assms(4,5) show ?thesis by (simp add: linked_def)
qed

theorem C5_chain_linkage_witness:
  "addBlocks ends1 (new_Blockchain ends1 script_heap 0) [1, 2] = Some (Inr script_final) \<and>
   distinct [1::nat, 2] \<and> (0::nat) \<notin> set [1, 2] \<and>
   (1::nat) \<le> 2 \<and> 2 < length (chain_arr (deref script_final)) \<and>
   nonce (chain_arr (deref script_final) ! 1) = Num 1 \<and>
   nonce (chain_arr (deref script_final) ! 2) = Num 1 \<and>
   previousHash (chain_arr (deref script_final) ! 1) =
     Some (hash (chain_arr (deref script_final) ! (1 - 1))) \<and>
   previousHash (chain_arr (deref script_final) ! 2) =
     Some (hash (chain_arr (deref script_final) ! (2 - 1)))"
proof -
  let ?s0 = "new_Blockchain ends1 script_heap 0"
  let ?s1 = "?s0\<lparr>heap := (heap ?s0)(1 := script1), chain_refs := [0, 1]\<rparr>"
  have a1: "addBlock ends1 ?s0 1 = Some (Inr ?s1)"
    using addBlock_ends1 [where s = ?s0 and r = 1]
    by (simp add: new_Blockchain_def script_heap_def Block_ends1 script1_def)
  have a2: "addBlock ends1 ?s1 2 = Some (Inr script_final)"
    using addBlock_ends1 [where s = ?s1 and r = 2]
    by (simp add: new_Blockchain_def script_heap_def Block_ends1 script2_def script_final_def
        fun_upd_twist)
  have run: "addBlocks ends1 ?s0 [1, 2] = Some (Inr script_final)"
    by (simp only: addBlocks.simps a1 a2 option.case sum.case)
  have d: "distinct [1::nat, 2]" by simp
  have f: "(0::nat) \<notin> set [1, 2]" by simp
  have l: "1 < length (chain_arr (deref script_final))" "2 < length (chain_arr (deref script_final))"
    by (simp_all add: script_final_def deref_def)
  have n: "nonce (chain_arr (deref script_final) ! 1) = Num 1"
      "nonce (chain_arr (deref script_final) ! 2) = Num 1"
    by (simp_all add: script_final_def deref_def script1_def script2_def once_fields
        script_heap_def Block_ends1)
  from C5_chain_linkage [where H = ends1 and i = 1, OF run d f _ l(1)]
    C5_chain_linkage [where H = ends1 and i = 2, OF run d f _ l(2)] run d f l n
  show ?thesis by simp
qed

text \<open>
  C6. \<^verbatim>\<open>isChainValid()\<close> checks no proof of work: a chain in which every block from the
  second on has the hash of its contents and the hash of its predecessor is valid, whatever
  the hashes begin with. In the witness the difficulty of the chain is 6 and neither hash
  begins with six zeros.
\<close>

theorem C6_no_proof_of_work_check:
  assumes "\<And>i. 1 \<le> i \<Longrightarrow> i < length (chain_arr c) \<Longrightarrow>
             hash (chain_arr c ! i) = calculateHash H (chain_arr c ! i) \<and>
             previousHash (chain_arr c ! i) = Some (hash (chain_arr c ! (i - 1)))"
  shows "isChainValid H c"
  using assms by (simp add: isChainValid_iff block_ok_def)

theorem C6_no_proof_of_work_check_witness:
  "hash rehashed = calculateHash prefix00 rehashed \<and>
   previousHash rehashed = Some (hash (createGenesisBlock prefix00)) \<and>
   take 6 (hash (createGenesisBlock prefix00)) \<noteq> replicate 6 CHR ''0'' \<and>
   take 6 (hash rehashed) \<noteq> replicate 6 CHR ''0'' \<and>
   isChainValid prefix00 \<lparr>chain_arr = [createGenesisBlock prefix00, rehashed], difficulty = 6\<rparr>"
proof -
  let ?c = "\<lparr>chain_arr = [createGenesisBlock prefix00, rehashed], difficulty = 6\<rparr>"
  have h1: "hash rehashed = calculateHash prefix00 rehashed"
    by (simp add: calculateHash_rehashed)
  have p1: "previousHash rehashed = Some (hash (createGenesisBlock prefix00))"
    by (simp add: rehashed_def Let_def)
  have h: "hash (chain_arr ?c ! i) = calculateHash prefix00 (chain_arr ?c ! i) \<and>
           previousHash (chain_arr ?c ! i) = Some (hash (chain_arr ?c ! (i - 1)))"
    if "1 \<le> i" "i < length (chain_arr ?c)" for i
  proof -
    from that have "i = 1" by simp
    with h1 p1 show ?thesis by simp
  qed
  have z: "take 6 (hash (createGenesisBlock prefix00)) \<noteq> replicate 6 CHR ''0''"
          "take 6 (hash rehashed) \<noteq> replicate 6 CHR ''0''"
    by (simp_all add: createGenesisBlock_eq rehashed_eq prefix00_def eval_nat_numeral)
  from C6_no_proof_of_work_check [where c = ?c and H = prefix00, OF h] h1 p1 z show ?thesis
    by blast
qed

text \<open>
  C7. A fresh chain, which holds the genesis block alone, is valid whatever the hash of
  the genesis block is: the theorem holds for every hash function, those under which that
  hash meets the difficulty and those under which it does not.
\<close>

theorem C7_genesis_only_valid:
  "chain_arr (Blockchain H) = [createGenesisBlock H] \<and> isChainValid H (Blockchain H)"
proof -
  have "isChainValid H (Blockchain H)"
    by (rule isChainValid_single) (simp add: Blockchain_def)
  then show ?thesis
    by (simp add: Blockchain_def)
qed

text \<open>
  C8. The constructor of \<^verbatim>\<open>Blockchain\<close>: the chain is the genesis block alone, with index 0,
  previous hash \<^verbatim>\<open>"0"\<close>, the fixed timestamp and payload, the hash the constructor of
  \<^verbatim>\<open>Block\<close> computed and the nonce still 0; the difficulty is 2.
\<close>

theorem C8_Blockchain_constructor:
  "chain_arr (Blockchain H) = [createGenesisBlock H] \<and>
   index (createGenesisBlock H) = 0 \<and>
   previousHash (createGenesisBlock H) = Some ''0'' \<and>
   timestamp (createGenesisBlock H) = ''01/01/2018'' \<and>
   data (createGenesisBlock H) = JStr ''Genesis Block'' \<and>
   hash (createGenesisBlock H) = H ''0001/01/2018\"Genesis Block\"undefined'' \<and>
   nonce (createGenesisBlock H) = Num 0 \<and>
   difficulty (Blockchain H) = 2"
  by (simp add: Blockchain_def createGenesisBlock_eq)

text \<open>
  C9. \<^verbatim>\<open>calculateHash\<close> is deterministic and pure: two blocks that agree on index,
  previous hash, timestamp, data and nonce get the same hash, a second call on the same
  block gives the same hash again, and a call leaves the block as it was.
\<close>

theorem C9_calculateHash_deterministic:
  assumes "index a = index b" and "previousHash a = previousHash b"
    and "timestamp a = timestamp b" and "data a = data b" and "nonce a = nonce b"
  shows "fst (calculateHash_run H a) = fst (calculateHash_run H b) \<and>
         fst (calculateHash_run H (snd (calculateHash_run H a))) = fst (calculateHash_run H a) \<and>
         snd (calculateHash_run H a) = a \<and> snd (calculateHash_run H b) = b"
  using assms by (simp add: calculateHash_run_def hash_input_def split: option.split)

theorem C9_calculateHash_deterministic_witness:
  "index memo = index (memo\<lparr>hash := ''00''\<rparr>) \<and>
   previousHash memo = previousHash (memo\<lparr>hash := ''00''\<rparr>) \<and>
   timestamp memo = timestamp (memo\<lparr>hash := ''00''\<rparr>) \<and>
   data memo = data (memo\<lparr>hash := ''00''\<rparr>) \<and>
   nonce memo = nonce (memo\<lparr>hash := ''00''\<rparr>) \<and>
   memo \<noteq> memo\<lparr>hash := ''00''\<rparr> \<and>
   fst (calculateHash_run prefix00 memo) =
     fst (calculateHash_run prefix00 (memo\<lparr>hash := ''00''\<rparr>)) \<and>
   snd (calculateHash_run prefix00 memo) = memo"
proof -
  have d: "memo \<noteq> memo\<lparr>hash := ''00''\<rparr>"
    by (simp add: memo_eq)
  from C9_calculateHash_deterministic
    [where a = memo and b = "memo\<lparr>hash := ''00''\<rparr>" and H = prefix00] d
  show ?thesis by simp
qed

text \<open>
  C10. \<^verbatim>\<open>isChainValid\<close> is read-only: the chain it returns with the verdict is the chain
  it was called on, so the sequence of blocks, every field of every block and the
  difficulty are as before.
\<close>

theorem C10_isChainValid_read_only:
  "snd (isChainValid_run H c) = c \<and>
   chain_arr (snd (isChainValid_run H c)) = chain_arr c \<and>
   difficulty (snd (isChainValid_run H c)) = difficulty c"
  by (simp add: isChainValid_run_def isChainValid_loop_snd)

end
